theory Spec2Isabelle
  imports Main "HOL-Library.Word"
begin

section \<open>Format Detector (pkg/archive/formats.go)\<close>

text \<open>
  \<^verbatim>\<open>FormatType\<close> is an integer enumeration; the five constants are declared with
  \<^verbatim>\<open>iota\<close> in this order.
\<close>

datatype FormatType =
    UnsupportedArchive
  | TarArchive
  | TarGzArchive
  | TarBz2Archive
  | ZipArchive

text \<open>
  The package variable \<^verbatim>\<open>extensions\<close> is a Go map literal with ten distinct keys.  It is
  kept as an association list in the order of the literal and read with \<open>map_of\<close>; a Go
  lookup \<^verbatim>\<open>v, ok := extensions[k]\<close> is \<open>map_of extensions k\<close>, with \<open>ok\<close> false
  exactly for \<open>None\<close>.
\<close>

definition extensions :: "(string \<times> FormatType) list" where
  "extensions =
    [(''ear'', ZipArchive),
     (''jar'', ZipArchive),
     (''par'', ZipArchive),
     (''war'', ZipArchive),
     (''zip'', ZipArchive),
     (''tar'', TarArchive),
     (''tar.gz'', TarGzArchive),
     (''tgz'', TarGzArchive),
     (''tar.bz2'', TarBz2Archive),
     (''tbz2'', TarBz2Archive)]"

text \<open>
  \<^verbatim>\<open>strings.Split(s, sep)\<close> for a separator of one byte: the pieces of \<open>s\<close> between
  the occurrences of the separator, in order.  A string without the separator gives the
  one-element list \<open>[s]\<close> (also for the empty string), and a leading or trailing separator
  gives an empty first or last piece.  Go strings are byte sequences, and so are HOL
  strings.
\<close>

fun Split :: "string \<Rightarrow> char \<Rightarrow> string list" where
  "Split [] sep = [[]]"
| "Split (c # cs) sep =
     (if c = sep then [] # Split cs sep
      else (case Split cs sep of
              [] \<Rightarrow> [[c]]
            | piece # pieces \<Rightarrow> (c # piece) # pieces))"

text \<open>\<^verbatim>\<open>strings.Join(elems, sep)\<close>: the elements with the separator between neighbours.\<close>

fun Join :: "string list \<Rightarrow> string \<Rightarrow> string" where
  "Join [] sep = []"
| "Join [x] sep = x"
| "Join (x # y # ys) sep = x @ sep @ Join (y # ys) sep"

text \<open>
  The slice expression \<^verbatim>\<open>fileSplit[i:]\<close> panics unless \<open>0 \<le> i \<le> len\<close>; the panic is
  the value \<open>None\<close>.
\<close>

definition slice_from :: "'a list \<Rightarrow> int \<Rightarrow> 'a list option" where
  "slice_from xs i =
     (if 0 \<le> i \<and> i \<le> int (length xs) then Some (drop (nat i) xs) else None)"

text \<open>
  The loop of \<^verbatim>\<open>ParseArchiveFormatFromFile\<close>,
  \<^verbatim>\<open>for i := len(fileSplit) - 1; i >= len(fileSplit)-2; i-- { ... }\<close>,
  entered with the current value of the signed index \<open>i\<close>.  It returns at the first
  index whose joined suffix is a key of the table, and leaves the loop with
  \<^verbatim>\<open>(UnsupportedArchive, false)\<close> when the index falls below \<open>len - 2\<close>.
\<close>

function search_extensions :: "string list \<Rightarrow> int \<Rightarrow> (FormatType \<times> bool) option" where
  "search_extensions fileSplit i =
     (if i \<ge> int (length fileSplit) - 2 then
        (case slice_from fileSplit i of
           None \<Rightarrow> None
         | Some suffix \<Rightarrow>
             (case map_of extensions (Join suffix ''.'') of
                Some archive \<Rightarrow> Some (archive, True)
              | None \<Rightarrow> search_extensions fileSplit (i - 1)))
      else Some (UnsupportedArchive, False))"
  by pat_completeness auto
termination
  by (relation "measure (\<lambda>(fileSplit, i). nat (i - (int (length fileSplit) - 2) + 1))") auto

declare search_extensions.simps [simp del]

definition ParseArchiveFormatFromFile :: "string \<Rightarrow> (FormatType \<times> bool) option" where
  "ParseArchiveFormatFromFile filename =
     (let fileSplit = Split filename (CHR ''.'') in
      if length fileSplit < 2 then Some (UnsupportedArchive, False)
      else search_extensions fileSplit (int (length fileSplit) - 1))"

text \<open>
  The detector as the specification words it: split the filename on the dot and check the
  compound suffix of length 2, then the one of length 1, against the table; no match is
  \<open>(UnsupportedArchive, False)\<close>.  A list of segments has a suffix of length \<open>n\<close>
  when it has at least \<open>n\<close> segments.
\<close>

definition compound_suffix :: "string list \<Rightarrow> nat \<Rightarrow> string option" where
  "compound_suffix segments n =
     (if n \<le> length segments
      then Some (Join (drop (length segments - n) segments) ''.'')
      else None)"

definition lookup_suffix :: "string list \<Rightarrow> nat \<Rightarrow> FormatType option" where
  "lookup_suffix segments n =
     (case compound_suffix segments n of
        None \<Rightarrow> None
      | Some key \<Rightarrow> map_of extensions key)"

definition detect_spec :: "string \<Rightarrow> FormatType \<times> bool" where
  "detect_spec filename =
     (let segments = Split filename (CHR ''.'') in
      case lookup_suffix segments 2 of
        Some format \<Rightarrow> (format, True)
      | None \<Rightarrow>
          (case lookup_suffix segments 1 of
             Some format \<Rightarrow> (format, True)
           | None \<Rightarrow> (UnsupportedArchive, False)))"

section \<open>Tar reader providers (pkg/archive/formats.go)\<close>

text \<open>
  A Go \<^verbatim>\<open>error\<close> value is kept by its message, the text \<^verbatim>\<open>err.Error()\<close> returns.
  \<^verbatim>\<open>errors.Wrap(err, msg)\<close> of pkg/errors gives the message \<^verbatim>\<open>msg: cause\<close>.
\<close>

datatype error = Error string

fun Error_msg :: "error \<Rightarrow> string" where
  "Error_msg (Error m) = m"

definition Wrap :: "error \<Rightarrow> string \<Rightarrow> error" where
  "Wrap err msg = Error (msg @ '': '' @ Error_msg err)"

text \<open>
  The three providers have the type \<^verbatim>\<open>func(io.Reader) (*tar.Reader, error)\<close>.  The
  constructors of the standard library they call are parameters: \<^verbatim>\<open>gzip.NewReader\<close>
  reads the gzip header and may return an error, \<^verbatim>\<open>bzip2.NewReader\<close> and
  \<^verbatim>\<open>tar.NewReader\<close> have no error result.  A result \<^verbatim>\<open>(nil, err)\<close> is \<open>Inl err\<close>
  and \<^verbatim>\<open>(reader, nil)\<close> is \<open>Inr reader\<close>.
\<close>

definition TarGzipReader ::
  "('r \<Rightarrow> error + 'g) \<Rightarrow> ('g \<Rightarrow> 't) \<Rightarrow> 'r \<Rightarrow> error + 't" where
  "TarGzipReader gzip_NewReader tar_NewReader iReader =
     (case gzip_NewReader iReader of
        Inl err \<Rightarrow> Inl err
      | Inr gzipReader \<Rightarrow> Inr (tar_NewReader gzipReader))"

definition TarBzip2Reader ::
  "('r \<Rightarrow> 'b) \<Rightarrow> ('b \<Rightarrow> 't) \<Rightarrow> 'r \<Rightarrow> error + 't" where
  "TarBzip2Reader bzip2_NewReader tar_NewReader iReader =
     Inr (tar_NewReader (bzip2_NewReader iReader))"

definition TarUncompressedReader :: "('r \<Rightarrow> 't) \<Rightarrow> 'r \<Rightarrow> error + 't" where
  "TarUncompressedReader tar_NewReader iReader = Inr (tar_NewReader iReader)"

section \<open>Reporter (pkg/crawl)\<close>

text \<open>
  \<^verbatim>\<open>crawl.Finding\<close> is a bit mask over five evidence flags (the integration tests combine
  them with \<^verbatim>\<open>|\<close> and test them with \<^verbatim>\<open>&\<close>); it is kept as the set of the flags that
  are on.  A resolved version is the triple major.minor.patch.
\<close>

datatype Flag =
    JarName
  | JarNameInsideArchive
  | ClassName
  | ClassPackageAndName
  | ClassFileMd5

type_synonym Finding = "Flag set"

record Version =
  major :: nat
  minor :: nat
  patch :: nat

definition version_less :: "Version \<Rightarrow> Version \<Rightarrow> bool" where
  "version_less a b =
     (major a < major b
      \<or> (major a = major b \<and> (minor a < minor b
           \<or> (minor a = minor b \<and> patch a < patch b))))"

definition version_le :: "Version \<Rightarrow> Version \<Rightarrow> bool" where
  "version_le a b = (\<not> version_less b a)"

text \<open>
  What the reporter writes to its output: one structured record per reported path, and
  the text of the summary.
\<close>

record FindingRecord =
  path :: string
  jarNameMatched :: bool
  jarNameInsideArchiveMatched :: bool
  classNameMatched :: bool
  classPackageAndNameMatched :: bool
  classFileMd5Matched :: bool
  version :: "Version option"

datatype Output = Record FindingRecord | Text string

text \<open>
  The reporter of one process run.  \<^verbatim>\<open>NewDockerScanner\<close> builds it from
  \<^verbatim>\<open>OutputJSON\<close>, \<^verbatim>\<open>OutputWriter\<close> and \<^verbatim>\<open>DisableCVE45105\<close>; the scanner sets the
  image id and tags before each image.  The output writer is the list of what has been
  written to it; the counters are 64-bit.
\<close>

record Reporter =
  OutputJSON :: bool
  OutputWriter :: "Output list"
  DisableCVE45105 :: bool
  imageID :: string
  imageTags :: "string list"
  fileCount :: "64 word"
  flagCount :: "Flag \<Rightarrow> 64 word"
  count :: "64 word"

text \<open>
  Modelled from the spec: the methods \<^verbatim>\<open>SetImageID\<close>, \<^verbatim>\<open>SetImageTags\<close>, \<^verbatim>\<open>Count\<close>
  and \<^verbatim>\<open>Collect\<close> of \<^verbatim>\<open>crawl.Reporter\<close>, whose source file is not among the sources.
  \<open>count()\<close> returns the cumulative vulnerable-path count.
\<close>

definition SetImageID :: "string \<Rightarrow> Reporter \<Rightarrow> Reporter" where
  "SetImageID imageId r = r\<lparr>imageID := imageId\<rparr>"

definition SetImageTags :: "string list \<Rightarrow> Reporter \<Rightarrow> Reporter" where
  "SetImageTags tags r = r\<lparr>imageTags := tags\<rparr>"

definition Count :: "Reporter \<Rightarrow> 64 word" where
  "Count r = count r"

text \<open>
  Modelled from the spec: the narrow CVE applies only to the version band from 2.16.0
  (included) to 2.17.0 (excluded), evaluated from the resolved version; a path whose
  version cannot be resolved counts under the base CVE only.
\<close>

definition in_narrow_band :: "Version \<Rightarrow> bool" where
  "in_narrow_band v =
     (version_le \<lparr>major = 2, minor = 16, patch = 0\<rparr> v
      \<and> version_less v \<lparr>major = 2, minor = 17, patch = 0\<rparr>)"

definition only_narrow_cve :: "Version option \<Rightarrow> bool" where
  "only_narrow_cve v = (case v of None \<Rightarrow> False | Some resolved \<Rightarrow> in_narrow_band resolved)"

text \<open>
  Modelled from the spec: with the switch set, the matches that fall only in the narrow
  band are excluded; every other path with a flag set indicates the base CVE pair and is
  reported.
\<close>

definition reportable :: "bool \<Rightarrow> Finding \<Rightarrow> Version option \<Rightarrow> bool" where
  "reportable disableCVE45105 finding v =
     (finding \<noteq> {} \<and> \<not> (disableCVE45105 \<and> only_narrow_cve v))"

definition finding_record :: "string \<Rightarrow> Finding \<Rightarrow> Version option \<Rightarrow> FindingRecord" where
  "finding_record p finding v =
     \<lparr>path = p,
      jarNameMatched = (JarName \<in> finding),
      jarNameInsideArchiveMatched = (JarNameInsideArchive \<in> finding),
      classNameMatched = (ClassName \<in> finding),
      classPackageAndNameMatched = (ClassPackageAndName \<in> finding),
      classFileMd5Matched = (ClassFileMd5 \<in> finding),
      version = v\<rparr>"

text \<open>
  Modelled from the spec: \<open>collect(path, Finding, Version)\<close> has no failure path.  It
  increments the total counter and the counter of every flag that is set; if any flag is
  set after the suppression rule is applied, it increments the vulnerable-path counter and
  appends the structured record to the sink.
\<close>

definition Reporter_Collect :: "Reporter \<Rightarrow> string \<times> Finding \<times> Version option \<Rightarrow> Reporter" where
  "Reporter_Collect r item =
     (case item of (p, finding, v) \<Rightarrow>
        let r1 = r\<lparr>fileCount := fileCount r + 1,
                   flagCount := (\<lambda>flag. if flag \<in> finding then flagCount r flag + 1
                                         else flagCount r flag)\<rparr>
        in if reportable (DisableCVE45105 r1) finding v
           then r1\<lparr>count := count r1 + 1,
                   OutputWriter := OutputWriter r1 @ [Record (finding_record p finding v)]\<rparr>
           else r1)"

section \<open>Docker image scanner (package docker)\<close>

text \<open>
  The two fields of \<^verbatim>\<open>dockertypes.ImageSummary\<close> the scanner reads.  The variable
  \<^verbatim>\<open>image\<close> of the source is written \<open>im\<close> below, \<open>image\<close> being a constant of HOL.
\<close>

record ImageSummary =
  ID :: string
  RepoTags :: "string list"

text \<open>
  The state the scanner works on: the entries of the file system (directories and files,
  by path name), the working directory of the process, what has been written to the
  error writer of the crawler, and the reporter, which the scanner holds by pointer.
\<close>

record World =
  paths :: "string list"
  cwd :: string
  ErrorWriter :: "string list"
  reporter :: Reporter

text \<open>
  One run of \<^verbatim>\<open>Crawler.Crawl\<close>, whose source file is not among the sources: the calls it
  made to the \<^verbatim>\<open>Collect\<close> callback, the lines it wrote to the error writer, and the
  pair \<^verbatim>\<open>(Stats, error)\<close> it returned.  The specification lets a crawl that is cancelled
  return an error after it has visited some nodes.
\<close>

record 's CrawlRun =
  collected :: "(string \<times> Finding \<times> Version option) list"
  written :: "string list"
  crawl_stats :: 's
  crawl_err :: "error option"

text \<open>
  The collaborators of the scanner that are not among the sources, as parameters: the
  docker client, the image library, the operating system, the archiver, the crawler and
  the summary writer.  Each says, for a call in a given state, whether the call fails and
  what it returns; the effect of a call that succeeds on the state is written in the model
  below.  \<open>'s\<close> is \<^verbatim>\<open>crawl.Stats\<close>, with its zero value and its \<^verbatim>\<open>Append\<close>;
  \<open>'ref\<close> and \<open>'img\<close> are \<^verbatim>\<open>name.Reference\<close> and \<^verbatim>\<open>v1.Image\<close>.
  \<^verbatim>\<open>OutputSummary\<close> is the one field of the configuration \<^verbatim>\<open>ScanImages\<close> reads.
\<close>

record ('s, 'ref, 'img) Env =
  OutputSummary :: bool
  ImageList :: "World \<Rightarrow> error + ImageSummary list"
  ParseReference :: "string \<Rightarrow> error + 'ref"
  daemon_Image :: "World \<Rightarrow> 'ref \<Rightarrow> error + 'img"
  MkdirTemp :: "World \<Rightarrow> string \<Rightarrow> error + string"
  Create :: "World \<Rightarrow> string \<Rightarrow> error option"
  Close :: "World \<Rightarrow> string \<Rightarrow> error option"
  RemoveAll :: "World \<Rightarrow> string \<Rightarrow> error option"
  Export :: "World \<Rightarrow> 'img \<Rightarrow> string \<Rightarrow> error option"
  Unarchive :: "World \<Rightarrow> string \<Rightarrow> string \<Rightarrow> string list \<times> error option"
  Remove :: "World \<Rightarrow> string \<Rightarrow> error option"
  Chdir :: "World \<Rightarrow> string \<Rightarrow> error option"
  Crawl :: "World \<Rightarrow> string \<Rightarrow> 's CrawlRun"
  Stats_zero :: 's
  Append :: "'s \<Rightarrow> 's \<Rightarrow> 's"
  WriteSummary :: "World \<Rightarrow> 's \<Rightarrow> 64 word \<Rightarrow> string \<times> error option"

definition newline :: string where
  "newline = [CHR 0x0A]"

text \<open>\<^verbatim>\<open>fmt.Fprintln\<close> and \<^verbatim>\<open>fmt.Fprintf\<close> on the error writer; a failed write is ignored.\<close>

definition write_error :: "string \<Rightarrow> World \<Rightarrow> World" where
  "write_error text w = w\<lparr>ErrorWriter := ErrorWriter w @ [text]\<rparr>"

text \<open>A path is inside a directory when it is the directory or lies below it.\<close>

definition inside :: "string \<Rightarrow> string \<Rightarrow> bool" where
  "inside dir p = (p = dir \<or> take (length dir + 1) p = dir @ ''/'')"

definition add_path :: "string \<Rightarrow> World \<Rightarrow> World" where
  "add_path p w = (if p \<in> set (paths w) then w else w\<lparr>paths := paths w @ [p]\<rparr>)"

text \<open>
  The deferred function of \<^verbatim>\<open>scanImage\<close>: close the output file, then remove the
  temporary directory with all it holds.  A failure of either call writes the same line
  to the error writer.  A call to \<^verbatim>\<open>os.RemoveAll\<close> that fails leaves the directory.
\<close>

definition cleanup ::
  "('s, 'ref, 'img) Env \<Rightarrow> string \<Rightarrow> string \<Rightarrow> World \<Rightarrow> World" where
  "cleanup env outFile imageTmpDir w =
     (let failed = ''failed to remove temporary image directory '' @ imageTmpDir @ newline;
          w1 = (case Close env w outFile of
                  Some err \<Rightarrow> write_error failed w
                | None \<Rightarrow> w)
      in case RemoveAll env w1 imageTmpDir of
           Some err \<Rightarrow> write_error failed w1
         | None \<Rightarrow> w1\<lparr>paths := filter (\<lambda>p. \<not> inside imageTmpDir p) (paths w1)\<rparr>)"

text \<open>
  \<^verbatim>\<open>scanImage\<close> from the statement \<^verbatim>\<open>crane.Export\<close> on, that is, the part that runs
  after the \<^verbatim>\<open>defer\<close> statement has registered the cleanup.  The result is the returned
  pair \<^verbatim>\<open>(crawl.Stats, error)\<close> and the state at the \<^verbatim>\<open>return\<close>.
\<close>

definition scanImage_export ::
  "('s, 'ref, 'img) Env \<Rightarrow> 'img \<Rightarrow> string \<Rightarrow> string \<Rightarrow> World
     \<Rightarrow> ('s \<times> error option) \<times> World" where
  "scanImage_export env img outFile imageTmpDir w =
     (case Export env w img outFile of
        Some err \<Rightarrow> ((Stats_zero env, Some (Wrap err ''could not export image'')), w)
      | None \<Rightarrow>
          (case Unarchive env w outFile imageTmpDir of (entries, unarchived) \<Rightarrow>
             let w1 = fold (\<lambda>entry. add_path (imageTmpDir @ ''/'' @ entry)) entries w in
             (case unarchived of
                Some err \<Rightarrow> ((Stats_zero env, Some (Wrap err ''failed to extract image'')), w1)
              | None \<Rightarrow>
                  (case Remove env w1 outFile of
                     Some err \<Rightarrow> ((Stats_zero env, Some err), w1)
                   | None \<Rightarrow>
                       let w2 = w1\<lparr>paths := removeAll outFile (paths w1)\<rparr> in
                       (case Chdir env w2 imageTmpDir of
                          Some err \<Rightarrow> ((Stats_zero env, Some err), w2)
                        | None \<Rightarrow>
                            let w3 = w2\<lparr>cwd := imageTmpDir\<rparr>;
                                run = Crawl env w3 ''.'';
                                w4 = w3\<lparr>reporter := foldl Reporter_Collect (reporter w3) (collected run),
                                        ErrorWriter := ErrorWriter w3 @ written run\<rparr>
                            in ((crawl_stats run, crawl_err run), w4))))))"

text \<open>
  \<^verbatim>\<open>scanImage\<close>.  The index expression \<^verbatim>\<open>image.RepoTags[0]\<close> panics on an image without
  tags; the panic is the value \<open>None\<close>.  The cleanup is registered after the error check
  of \<^verbatim>\<open>os.Create\<close>, so it runs at the returns that follow it and at no earlier one.
\<close>

definition scanImage ::
  "('s, 'ref, 'img) Env \<Rightarrow> ImageSummary \<Rightarrow> World
     \<Rightarrow> (('s \<times> error option) \<times> World) option" where
  "scanImage env im w =
     (case RepoTags im of
        [] \<Rightarrow> None
      | tag # _ \<Rightarrow>
          (case ParseReference env tag of
             Inl err \<Rightarrow>
               Some ((Stats_zero env, Some (Wrap err ''failed to get image reference'')), w)
           | Inr ref \<Rightarrow>
               (case daemon_Image env w ref of
                  Inl err \<Rightarrow> Some ((Stats_zero env, Some err), w)
                | Inr img \<Rightarrow>
                    (case MkdirTemp env w (''log4j-sniffer-'' @ ID im) of
                       Inl err \<Rightarrow>
                         Some ((Stats_zero env,
                                Some (Wrap err ''could not create temporary directory for image'')), w)
                     | Inr imageTmpDir \<Rightarrow>
                         let w1 = add_path imageTmpDir w;
                             outFile = imageTmpDir @ ''/'' @ ''image.tar''
                         in (case Create env w1 outFile of
                               Some err \<Rightarrow> Some ((Stats_zero env, Some err), w1)
                             | None \<Rightarrow>
                                 (case scanImage_export env img outFile imageTmpDir
                                         (add_path outFile w1) of
                                    (returned, w2) \<Rightarrow>
                                      Some (returned, cleanup env outFile imageTmpDir w2)))))))"

text \<open>
  The loop of \<^verbatim>\<open>ScanImages\<close> over the image list, with the accumulated \<^verbatim>\<open>stats\<close>.
\<close>

fun scan_images_loop ::
  "('s, 'ref, 'img) Env \<Rightarrow> ImageSummary list \<Rightarrow> 's \<Rightarrow> World \<Rightarrow> ('s \<times> World) option" where
  "scan_images_loop env [] stats w = Some (stats, w)"
| "scan_images_loop env (im # images) stats w =
     (if length (RepoTags im) = 0 then scan_images_loop env images stats w
      else
        let w1 = w\<lparr>reporter := SetImageTags (RepoTags im)
                                 (SetImageID (ID im) (reporter w))\<rparr>
        in case scanImage env im w1 of
             None \<Rightarrow> None
           | Some ((imageStats, err), w2) \<Rightarrow>
               (case err of
                  Some e \<Rightarrow>
                    scan_images_loop env images stats (write_error (Error_msg e @ newline) w2)
                | None \<Rightarrow>
                    scan_images_loop env images (Append env stats imageStats) w2))"

text \<open>
  \<^verbatim>\<open>ScanImages\<close> returns the pair \<^verbatim>\<open>(int64, error)\<close>; the summary is written to the
  output writer of the reporter.
\<close>

definition ScanImages ::
  "('s, 'ref, 'img) Env \<Rightarrow> World \<Rightarrow> ((64 word \<times> error option) \<times> World) option" where
  "ScanImages env w =
     (case ImageList env w of
        Inl err \<Rightarrow> Some ((0, Some (Wrap err ''could not list docker images'')), w)
      | Inr imageList \<Rightarrow>
          (case scan_images_loop env imageList (Stats_zero env) w of
             None \<Rightarrow> None
           | Some (stats, w1) \<Rightarrow>
               let n = Count (reporter w1) in
               if OutputSummary env then
                 (case WriteSummary env w1 stats n of (text, failed) \<Rightarrow>
                    let w2 = w1\<lparr>reporter := (reporter w1)
                                 \<lparr>OutputWriter := OutputWriter (reporter w1) @ [Text text]\<rparr>\<rparr>
                    in (case failed of
                          Some err \<Rightarrow> Some ((0, Some err), w2)
                        | None \<Rightarrow> Some ((n, None), w2)))
               else Some ((n, None), w1)))"

section \<open>The run over the images as the specification describes it\<close>

text \<open>
  In multi-root mode a failure while scanning one root is logged and that root is
  skipped; the run proceeds to the next root and reports a combined summary for the roots
  that succeeded.  The run is described here root by root, apart from the loop of
  \<^verbatim>\<open>ScanImages\<close>: one entry for every image that is scanned, with the state it is scanned
  in, the pair \<^verbatim>\<open>scanImage\<close> returned for it and the state it leaves.
\<close>

record 's ImageRun =
  run_image :: ImageSummary
  run_before :: World
  run_stats :: 's
  run_err :: "error option"
  run_after :: World

text \<open>The state an image is scanned in: the reporter has been told its id and its tags.\<close>

definition announce :: "ImageSummary \<Rightarrow> World \<Rightarrow> World" where
  "announce im w =
     w\<lparr>reporter := SetImageTags (RepoTags im) (SetImageID (ID im) (reporter w))\<rparr>"

text \<open>
  An image without tags is not scanned.  Every other image is scanned in the state the
  image before it left; an image that fails leaves one more line in the error writer,
  the message of its error.
\<close>

fun image_runs ::
  "('s, 'ref, 'img) Env \<Rightarrow> ImageSummary list \<Rightarrow> World \<Rightarrow> 's ImageRun list" where
  "image_runs env [] w = []"
| "image_runs env (im # images) w =
     (if RepoTags im = [] then image_runs env images w
      else
        (case scanImage env im (announce im w) of
           None \<Rightarrow> []
         | Some ((imageStats, err), w2) \<Rightarrow>
             let after = (case err of
                            None \<Rightarrow> w2
                          | Some e \<Rightarrow> write_error (Error_msg e @ newline) w2)
             in \<lparr>run_image = im, run_before = announce im w, run_stats = imageStats,
                  run_err = err, run_after = after\<rparr>
                # image_runs env images after))"

text \<open>The state after the last image, or the initial state when no image was scanned.\<close>

definition final_state :: "World \<Rightarrow> 's ImageRun list \<Rightarrow> World" where
  "final_state w runs = (if runs = [] then w else run_after (last runs))"

text \<open>
  The roots that succeeded, the Stats combined from them with \<^verbatim>\<open>Append\<close>, and what one
  scanned image added to the cumulative count of the reporter.
\<close>

definition succeeded :: "'s ImageRun \<Rightarrow> bool" where
  "succeeded r = (run_err r = None)"

definition combined_stats :: "('s, 'ref, 'img) Env \<Rightarrow> 's ImageRun list \<Rightarrow> 's" where
  "combined_stats env runs =
     foldl (Append env) (Stats_zero env) (map run_stats (filter succeeded runs))"

definition reported :: "'s ImageRun \<Rightarrow> 64 word" where
  "reported r = Count (reporter (run_after r)) - Count (reporter (run_before r))"

section \<open>Example images and environments\<close>

text \<open>
  Concrete inputs for the theorems below: one image with a tag, one without, one that has
  left the daemon; a state with an empty reporter; an environment in which every call
  succeeds and the crawl reports one vulnerable jar, and variants of it in which one call
  fails.  \<^verbatim>\<open>crawl.Stats\<close> is a number of scanned files here.
\<close>

definition example_image :: ImageSummary where
  "example_image = \<lparr>ID = ''sha256:0a1b'', RepoTags = [''app:latest'']\<rparr>"

definition example_reporter :: Reporter where
  "example_reporter =
     \<lparr>OutputJSON = False, OutputWriter = [], DisableCVE45105 = False,
      imageID = [], imageTags = [], fileCount = 0, flagCount = (\<lambda>flag. 0), count = 0\<rparr>"

definition example_world :: World where
  "example_world =
     \<lparr>paths = [''/tmp''], cwd = ''/'', ErrorWriter = [], reporter = example_reporter\<rparr>"

definition example_run :: "nat CrawlRun" where
  "example_run =
     \<lparr>collected = [(''usr/lib/log4j-core-2.14.1.jar'', {JarName},
                     Some \<lparr>major = 2, minor = 14, patch = 1\<rparr>)],
      written = [], crawl_stats = 1, crawl_err = None\<rparr>"

definition example_env :: "(nat, string, string) Env" where
  "example_env =
     \<lparr>OutputSummary = True,
      ImageList = (\<lambda>w. Inr [example_image]),
      ParseReference = (\<lambda>tag. if CHR '':'' \<in> set tag then Inr tag
                               else Inl (Error ''could not parse reference'')),
      daemon_Image = (\<lambda>w ref. Inr ref),
      MkdirTemp = (\<lambda>w pattern. Inr (''/tmp/'' @ pattern @ ''-1'')),
      Create = (\<lambda>w p. None),
      Close = (\<lambda>w p. None),
      RemoveAll = (\<lambda>w p. None),
      Export = (\<lambda>w img p. None),
      Unarchive = (\<lambda>w src dest. ([''usr'', ''usr/lib'', ''usr/lib/log4j-core-2.14.1.jar''], None)),
      Remove = (\<lambda>w p. None),
      Chdir = (\<lambda>w p. None),
      Crawl = (\<lambda>w root. example_run),
      Stats_zero = 0,
      Append = (+),
      WriteSummary = (\<lambda>w stats n. (''summary'', None))\<rparr>"

definition untagged_image :: ImageSummary where
  "untagged_image = \<lparr>ID = ''sha256:7c2d'', RepoTags = []\<rparr>"

definition gone_image :: ImageSummary where
  "gone_image = \<lparr>ID = ''sha256:9e3f'', RepoTags = [''gone:latest'']\<rparr>"

definition env_image_gone :: "(nat, string, string) Env" where
  "env_image_gone =
     example_env
       \<lparr>ImageList := (\<lambda>w. Inr [untagged_image, gone_image, example_image]),
        daemon_Image := (\<lambda>w ref. if ref = ''gone:latest''
                                   then Inl (Error ''No such image: gone:latest'')
                                   else Inr ref)\<rparr>"

definition env_create_fails :: "(nat, string, string) Env" where
  "env_create_fails =
     example_env\<lparr>Create := (\<lambda>w p. Some (Error (''open '' @ p @ '': too many open files'')))\<rparr>"

definition env_crawl_cancelled :: "(nat, string, string) Env" where
  "env_crawl_cancelled =
     example_env
       \<lparr>Crawl := (\<lambda>w root. example_run\<lparr>crawl_err := Some (Error ''context canceled'')\<rparr>)\<rparr>"

definition narrow_switch_reporter :: Reporter where
  "narrow_switch_reporter = example_reporter\<lparr>DisableCVE45105 := True\<rparr>"

definition example_items :: "(string \<times> Finding \<times> Version option) list" where
  "example_items =
     [(''lib/log4j-core-2.16.0.jar'', {JarName, ClassPackageAndName, ClassFileMd5},
         Some \<lparr>major = 2, minor = 16, patch = 0\<rparr>),
      (''lib/log4j-core-2.14.1.jar'', {JarName, ClassPackageAndName, ClassFileMd5},
         Some \<lparr>major = 2, minor = 14, patch = 1\<rparr>),
      (''shaded/JndiManager.class'', {ClassName}, None),
      (''README.md'', {}, None)]"

definition env_summary_off :: "(nat, string, string) Env" where
  "env_summary_off = env_image_gone\<lparr>OutputSummary := False\<rparr>"

section \<open>Properties of the Format Detector\<close>

subsection \<open>Splitting and joining\<close>

lemma Split_nonempty: "Split s c \<noteq> []"
  by (induction s) (auto split: list.splits)

lemma Split_no_sep: "c \<notin> set s \<Longrightarrow> Split s c = [s]"
  by (induction s) auto

lemma Split_append_sep: "Split (base @ c # ext) c = Split base c @ Split ext c"
  by (induction base) (auto split: list.splits simp: Split_nonempty)

lemma Split_len_ge2: "c \<in> set s \<Longrightarrow> 2 \<le> length (Split s c)"
  by (induction s) (auto split: list.splits simp: Split_nonempty)

lemma Split_pieces_no_sep: "p \<in> set (Split s c) \<Longrightarrow> c \<notin> set p"
  by (induction s arbitrary: p) (auto split: list.splits if_splits)

lemma search_two:
  fixes pre :: "string list" and x y :: string
  defines "n \<equiv> int (length (pre @ [x, y]))"
  shows "search_extensions (pre @ [x, y]) (n - 1) =
     (case map_of extensions y of
        Some a \<Rightarrow> Some (a, True)
      | None \<Rightarrow>
         (case map_of extensions (x @ ''.'' @ y) of
            Some a \<Rightarrow> Some (a, True)
          | None \<Rightarrow> Some (UnsupportedArchive, False)))"
proof -
  let ?fs = "pre @ [x, y]"
  have n1: "nat (n - 1) = Suc (length pre)" and n2: "nat (n - 2) = length pre"
    by (simp_all add: n_def)
  have s1: "slice_from ?fs (n - 1) = Some [y]"
    unfolding slice_from_def n1 by (simp add: n_def)
  have s2: "slice_from ?fs (n - 2) = Some [x, y]"
    unfolding slice_from_def n2 by (simp add: n_def)
  have g1: "n - 1 \<ge> int (length ?fs) - 2" and g2: "n - 2 \<ge> int (length ?fs) - 2"
    and g3: "\<not> n - 3 \<ge> int (length ?fs) - 2"
    by (simp_all add: n_def)
  have e3: "search_extensions ?fs (n - 3) = Some (UnsupportedArchive, False)"
    by (subst search_extensions.simps) (simp only: g3 if_False)
  have m2: "n - 2 - 1 = n - 3" and m1: "n - 1 - 1 = n - 2" by simp_all
  have e2: "search_extensions ?fs (n - 2) =
      (case map_of extensions (x @ ''.'' @ y) of
         Some a \<Rightarrow> Some (a, True)
       | None \<Rightarrow> Some (UnsupportedArchive, False))"
    by (subst search_extensions.simps)
       (simp only: g2 if_True s2 option.case Join.simps m2 e3)
  show ?thesis
    by (subst search_extensions.simps)
       (simp only: g1 if_True s1 option.case Join.simps m1 e2)
qed

lemma last_two: "2 \<le> length fs \<Longrightarrow> \<exists>pre x y. fs = pre @ [x, y]"
proof (cases fs rule: rev_cases)
  case Nil
  assume "2 \<le> length fs"
  with Nil show ?thesis by simp
next
  case (snoc ys y)
  assume len: "2 \<le> length fs"
  show ?thesis
  proof (cases ys rule: rev_cases)
    case Nil
    with snoc len show ?thesis by simp
  next
    case (snoc zs x)
    with \<open>fs = ys @ [y]\<close> have "fs = zs @ [x, y]" by simp
    then show ?thesis by blast
  qed
qed

lemma Join_two: "Join [x, y] sep = x @ sep @ y"
  by simp

lemma ext_of_key:
  assumes "CHR ''.'' \<notin> set y"
  shows "rev (takeWhile (\<lambda>c. c \<noteq> CHR ''.'') (rev (x @ ''.'' @ y))) = y"
proof -
  have "takeWhile (\<lambda>c. c \<noteq> CHR ''.'') (rev (x @ ''.'' @ y))
          = takeWhile (\<lambda>c. c \<noteq> CHR ''.'') (rev y)"
    by (simp add: takeWhile_tail)
  also have "\<dots> = rev y"
    using assms by (auto simp: takeWhile_eq_all_conv)
  finally show ?thesis
    by (simp only: rev_rev_ident)
qed

lemma two_segment_key_final:
  assumes look: "map_of extensions (x @ ''.'' @ y) = Some a" and nodot: "CHR ''.'' \<notin> set y"
  shows "map_of extensions y = None"
proof -
  define k where "k = x @ ''.'' @ y"
  have y: "y = rev (takeWhile (\<lambda>c. c \<noteq> CHR ''.'') (rev k))"
    using ext_of_key [OF nodot] by (simp add: k_def)
  have dot: "CHR ''.'' \<in> set k" by (simp add: k_def)
  from look have "k \<in> fst ` set extensions"
    unfolding k_def by (metis map_of_eq_None_iff option.distinct(1))
  then consider "k = ''tar.gz''" | "k = ''tar.bz2''"
    using dot by (auto simp: extensions_def)
  then show ?thesis
  proof cases
    case 1
    with y have "y = ''gz''" by simp
    then show ?thesis by (simp add: extensions_def)
  next
    case 2
    with y have "y = ''bz2''" by simp
    then show ?thesis by (simp add: extensions_def)
  qed
qed

lemma lookup_suffix_last:
  "lookup_suffix (pre @ [x, y]) 1 = map_of extensions y"
  "lookup_suffix (pre @ [x, y]) 2 = map_of extensions (x @ ''.'' @ y)"
  by (simp_all add: lookup_suffix_def compound_suffix_def)

lemma detect_order:
  assumes "2 \<le> length (Split filename (CHR ''.''))"
  shows "ParseArchiveFormatFromFile filename = Some (detect_spec filename)"
proof -
  let ?fs = "Split filename (CHR ''.'')"
  obtain pre x y where fs: "?fs = pre @ [x, y]"
    using last_two [OF assms] by blast
  have "y \<in> set ?fs" by (simp add: fs)
  then have nodot: "CHR ''.'' \<notin> set y" by (rule Split_pieces_no_sep)
  have spec: "detect_spec filename =
      (case map_of extensions (x @ ''.'' @ y) of
         Some a \<Rightarrow> (a, True)
       | None \<Rightarrow>
          (case map_of extensions y of
             Some a \<Rightarrow> (a, True)
           | None \<Rightarrow> (UnsupportedArchive, False)))"
    unfolding detect_spec_def Let_def fs lookup_suffix_last ..
  have code: "ParseArchiveFormatFromFile filename =
      (case map_of extensions y of
         Some a \<Rightarrow> Some (a, True)
       | None \<Rightarrow>
          (case map_of extensions (x @ ''.'' @ y) of
             Some a \<Rightarrow> Some (a, True)
           | None \<Rightarrow> Some (UnsupportedArchive, False)))"
    using search_two [of pre x y]
    by (simp add: ParseArchiveFormatFromFile_def Let_def fs)
  show ?thesis
  proof (cases "map_of extensions (x @ ''.'' @ y)")
    case None
    then show ?thesis
      unfolding code spec by (simp split: option.splits)
  next
    case (Some a)
    then have "map_of extensions y = None"
      using two_segment_key_final nodot by blast
    with Some show ?thesis
      unfolding code spec by simp
  qed
qed

lemma parse_final_segment:
  assumes nodot: "CHR ''.'' \<notin> set ext" and key: "map_of extensions ext = Some format"
  shows "ParseArchiveFormatFromFile (base @ ''.'' @ ext) = Some (format, True)"
proof -
  obtain pre x where sp: "Split base (CHR ''.'') = pre @ [x]"
    using Split_nonempty [of base "CHR ''.''"] by (metis rev_exhaust)
  have fs: "Split (base @ CHR ''.'' # ext) (CHR ''.'') = pre @ [x, ext]"
    using nodot by (simp add: Split_append_sep Split_no_sep sp)
  show ?thesis
    using search_two [of pre x ext]
    by (simp add: ParseArchiveFormatFromFile_def Let_def fs key)
qed

subsection \<open>The detector against the specification\<close>

text \<open>
  Claim C1, as amended.  For every filename that contains a dot, the result of
  \<^verbatim>\<open>ParseArchiveFormatFromFile\<close> is the result of checking the compound suffix of
  length 2 and then the one of length 1 against the extension table.  (The loop checks
  the suffix of length 1 first; no key of the table is the last segment of a key of two
  segments, so the order does not show.)  A filename without a dot is never matched.
  The filename \<^verbatim>\<open>app.tar.gz\<close> resolves to \<^verbatim>\<open>TarGzArchive\<close>, and its final segment
  \<^verbatim>\<open>gz\<close> alone is no key of the table.
\<close>

theorem ParseArchiveFormatFromFile_detect_spec:
  "(CHR ''.'' \<in> set filename
      \<longrightarrow> ParseArchiveFormatFromFile filename = Some (detect_spec filename))
   \<and> (CHR ''.'' \<notin> set filename
      \<longrightarrow> ParseArchiveFormatFromFile filename = Some (UnsupportedArchive, False))
   \<and> ParseArchiveFormatFromFile ''app.tar.gz'' = Some (TarGzArchive, True)
   \<and> map_of extensions ''gz'' = None"
proof -
  have "ParseArchiveFormatFromFile ''app.tar.gz'' = Some (detect_spec ''app.tar.gz'')"
    by (rule detect_order) simp
  then have "ParseArchiveFormatFromFile ''app.tar.gz'' = Some (TarGzArchive, True)"
    by (simp add: detect_spec_def lookup_suffix_def compound_suffix_def extensions_def)
  moreover have "map_of extensions ''gz'' = None"
    by (simp add: extensions_def)
  moreover have "CHR ''.'' \<in> set filename
      \<longrightarrow> ParseArchiveFormatFromFile filename = Some (detect_spec filename)"
    using detect_order Split_len_ge2 by blast
  moreover have "CHR ''.'' \<notin> set filename
      \<longrightarrow> ParseArchiveFormatFromFile filename = Some (UnsupportedArchive, False)"
    by (simp add: ParseArchiveFormatFromFile_def Split_no_sep)
  ultimately show ?thesis by blast
qed

text \<open>The theorem at the filename \<^verbatim>\<open>lib.tar.bz2\<close>.\<close>

theorem ParseArchiveFormatFromFile_detect_spec_witness:
  "CHR ''.'' \<in> set ''lib.tar.bz2''
   \<and> ParseArchiveFormatFromFile ''lib.tar.bz2'' = Some (detect_spec ''lib.tar.bz2'')
   \<and> detect_spec ''lib.tar.bz2'' = (TarBz2Archive, True)"
  using ParseArchiveFormatFromFile_detect_spec [of "''lib.tar.bz2''"]
  by (simp add: detect_spec_def lookup_suffix_def compound_suffix_def extensions_def)

text \<open>
  Claim C1 as it is stated speaks of every filename.  The filename \<^verbatim>\<open>zip\<close> has one
  segment, which is its suffix of length 1 and a key of the table: checking the suffixes
  against the table gives the zip format, while the code returns before the loop, at
  the test \<^verbatim>\<open>len(fileSplit) < 2\<close>.
\<close>

theorem ParseArchiveFormatFromFile_bare_key_counterexample:
  "detect_spec ''zip'' = (ZipArchive, True)
   \<and> ParseArchiveFormatFromFile ''zip'' = Some (UnsupportedArchive, False)
   \<and> ParseArchiveFormatFromFile ''zip'' \<noteq> Some (detect_spec ''zip'')"
  by (simp add: ParseArchiveFormatFromFile_def detect_spec_def lookup_suffix_def
        compound_suffix_def extensions_def)

text \<open>
  Claim C5.  The detector returns a pair for every filename: the slice expression of the
  loop never panics, and there is no error result.  When neither the trailing suffix of
  one segment nor the trailing suffix of two segments of the filename is a key of the
  extension table, the pair is \<^verbatim>\<open>(UnsupportedArchive, false)\<close>.
\<close>

theorem ParseArchiveFormatFromFile_no_match:
  "(\<exists>result. ParseArchiveFormatFromFile filename = Some result)
   \<and> ((\<forall>n \<in> {1, 2}. lookup_suffix (Split filename (CHR ''.'')) n = None)
        \<longrightarrow> ParseArchiveFormatFromFile filename = Some (UnsupportedArchive, False))"
proof (cases "2 \<le> length (Split filename (CHR ''.''))")
  case True
  then have eq: "ParseArchiveFormatFromFile filename = Some (detect_spec filename)"
    by (rule detect_order)
  have "(\<forall>n \<in> {1, 2}. lookup_suffix (Split filename (CHR ''.'')) n = None)
        \<longrightarrow> detect_spec filename = (UnsupportedArchive, False)"
    by (simp add: detect_spec_def Let_def)
  with eq show ?thesis by simp
next
  case False
  then have "ParseArchiveFormatFromFile filename = Some (UnsupportedArchive, False)"
    by (simp add: ParseArchiveFormatFromFile_def Let_def)
  then show ?thesis by blast
qed

text \<open>The theorem at the filename \<^verbatim>\<open>notes.txt\<close>.\<close>

theorem ParseArchiveFormatFromFile_no_match_witness:
  "lookup_suffix (Split ''notes.txt'' (CHR ''.'')) 1 = None
   \<and> lookup_suffix (Split ''notes.txt'' (CHR ''.'')) 2 = None
   \<and> ParseArchiveFormatFromFile ''notes.txt'' = Some (UnsupportedArchive, False)"
  using ParseArchiveFormatFromFile_no_match [of "''notes.txt''"]
  by (simp add: lookup_suffix_def compound_suffix_def extensions_def)

text \<open>
  Claim C6.  For each of the extensions \<^verbatim>\<open>zip\<close>, \<^verbatim>\<open>jar\<close>, \<^verbatim>\<open>war\<close>, \<^verbatim>\<open>ear\<close> and
  \<^verbatim>\<open>par\<close>, a filename that ends in a dot and the extension is mapped to
  \<^verbatim>\<open>ZipArchive\<close> with \<^verbatim>\<open>matched = true\<close>, whatever comes before the dot.
\<close>

theorem ParseArchiveFormatFromFile_zip_family:
  assumes "ext \<in> {''zip'', ''jar'', ''war'', ''ear'', ''par''}"
  shows "ParseArchiveFormatFromFile (base @ ''.'' @ ext) = Some (ZipArchive, True)"
proof -
  from assms have "CHR ''.'' \<notin> set ext" and "map_of extensions ext = Some ZipArchive"
    by (auto simp: extensions_def)
  then show ?thesis by (rule parse_final_segment)
qed

text \<open>The theorem at the filename \<^verbatim>\<open>app.war\<close>.\<close>

theorem ParseArchiveFormatFromFile_zip_family_witness:
  "''war'' \<in> {''zip'', ''jar'', ''war'', ''ear'', ''par''}
   \<and> ParseArchiveFormatFromFile ''app.war'' = Some (ZipArchive, True)"
  using ParseArchiveFormatFromFile_zip_family [of "''war''" "''app''"] by simp

text \<open>
  Claim C8.  The extension table has the keys \<^verbatim>\<open>tgz\<close>, mapped to \<^verbatim>\<open>TarGzArchive\<close>,
  and \<^verbatim>\<open>tbz2\<close>, mapped to \<^verbatim>\<open>TarBz2Archive\<close>, and the detector gives these formats
  to every filename that ends in \<^verbatim>\<open>.tgz\<close> or in \<^verbatim>\<open>.tbz2\<close>.
\<close>

theorem ParseArchiveFormatFromFile_tgz_tbz2:
  "map_of extensions ''tgz'' = Some TarGzArchive
   \<and> map_of extensions ''tbz2'' = Some TarBz2Archive
   \<and> ParseArchiveFormatFromFile (base @ ''.'' @ ''tgz'') = Some (TarGzArchive, True)
   \<and> ParseArchiveFormatFromFile (base @ ''.'' @ ''tbz2'') = Some (TarBz2Archive, True)"
proof -
  have 1: "map_of extensions ''tgz'' = Some TarGzArchive"
    and 2: "map_of extensions ''tbz2'' = Some TarBz2Archive"
    by (simp_all add: extensions_def)
  have "ParseArchiveFormatFromFile (base @ ''.'' @ ''tgz'') = Some (TarGzArchive, True)"
    by (rule parse_final_segment [OF _ 1]) simp
  moreover
  have "ParseArchiveFormatFromFile (base @ ''.'' @ ''tbz2'') = Some (TarBz2Archive, True)"
    by (rule parse_final_segment [OF _ 2]) simp
  ultimately show ?thesis using 1 2 by blast
qed

text \<open>
  Claim C9.  For every filename without a dot the detector returns
  \<^verbatim>\<open>(UnsupportedArchive, false)\<close>.
\<close>

theorem ParseArchiveFormatFromFile_no_separator:
  assumes "CHR ''.'' \<notin> set filename"
  shows "ParseArchiveFormatFromFile filename = Some (UnsupportedArchive, False)"
  using assms by (simp add: ParseArchiveFormatFromFile_def Split_no_sep)

text \<open>
  The theorem at the filename \<^verbatim>\<open>tar\<close>, which is a key of the table and is not treated
  as a container.
\<close>

theorem ParseArchiveFormatFromFile_no_separator_witness:
  "CHR ''.'' \<notin> set ''tar'' \<and> map_of extensions ''tar'' = Some TarArchive
   \<and> ParseArchiveFormatFromFile ''tar'' = Some (UnsupportedArchive, False)"
  using ParseArchiveFormatFromFile_no_separator [of "''tar''"] by (simp add: extensions_def)

section \<open>Properties of the tar reader providers\<close>

text \<open>
  Claim C10.  For every byte source, \<^verbatim>\<open>TarBzip2Reader\<close> and \<^verbatim>\<open>TarUncompressedReader\<close>
  return a reader and a nil error, and \<^verbatim>\<open>TarGzipReader\<close> returns an error exactly when
  \<^verbatim>\<open>gzip.NewReader\<close> returns one for the byte source; the error is then the same.
\<close>

theorem tar_reader_providers_errors:
  "TarBzip2Reader bzip2_NewReader tar_NewReader iReader
      = Inr (tar_NewReader (bzip2_NewReader iReader))
   \<and> TarUncompressedReader tar_NewReader iReader = Inr (tar_NewReader iReader)
   \<and> (isl (TarGzipReader gzip_NewReader tar_NewReader' iReader) = isl (gzip_NewReader iReader))
   \<and> (TarGzipReader gzip_NewReader tar_NewReader' iReader = Inl err) = (gzip_NewReader iReader = Inl err)"
  by (simp add: TarBzip2Reader_def TarUncompressedReader_def TarGzipReader_def split: sum.splits)

section \<open>Properties of the reporter\<close>

lemma in_narrow_band_iff: "in_narrow_band v \<longleftrightarrow> major v = 2 \<and> minor v = 16"
  by (auto simp: in_narrow_band_def version_le_def version_less_def)

lemma Reporter_Collect_DisableCVE45105 [simp]:
  "DisableCVE45105 (Reporter_Collect r item) = DisableCVE45105 r"
  by (cases item) (simp add: Reporter_Collect_def Let_def)

lemma Reporter_Collect_count:
  "count (Reporter_Collect r (p, finding, v)) =
     (if reportable (DisableCVE45105 r) finding v then count r + 1 else count r)"
  by (simp add: Reporter_Collect_def Let_def)

lemma foldl_Reporter_Collect_count:
  "count (foldl Reporter_Collect r items) =
     count r + of_nat (length (filter (\<lambda>(p, finding, v). reportable (DisableCVE45105 r) finding v) items))"
proof (induction items arbitrary: r)
  case Nil
  show ?case by simp
next
  case (Cons item items)
  obtain p finding v where item: "item = (p, finding, v)" by (cases item) auto
  show ?case
    by (simp add: Cons.IH item Reporter_Collect_count)
qed

text \<open>
  Claim C4.  With the switch \<^verbatim>\<open>DisableCVE45105\<close> set, the vulnerable-path count after a
  crawl has grown by the number of collected paths that have a flag set and whose
  resolved version is not inside the band from 2.16.0 to 2.17.0: a path whose only
  evidence is a version inside the band is left out of the count, every other path with
  evidence is counted.  The versions inside the band are the versions 2.16.x.
\<close>

theorem Reporter_Collect_suppression:
  assumes "DisableCVE45105 r"
  shows "count (foldl Reporter_Collect r items) =
     count r + of_nat (length (filter (\<lambda>(p, finding, v). finding \<noteq> {} \<and> \<not> only_narrow_cve v) items))
   \<and> only_narrow_cve v = (\<exists>resolved. v = Some resolved \<and> major resolved = 2 \<and> minor resolved = 16)"
proof -
  have "only_narrow_cve v = (\<exists>resolved. v = Some resolved \<and> major resolved = 2 \<and> minor resolved = 16)"
    by (cases v) (simp_all add: only_narrow_cve_def in_narrow_band_iff)
  then show ?thesis
    using assms by (simp add: foldl_Reporter_Collect_count reportable_def)
qed

text \<open>
  The theorem at four paths: a jar of version 2.16.0 (left out), a jar of version 2.14.1
  and a class without a resolved version (both counted), and a file without evidence.
\<close>

theorem Reporter_Collect_suppression_witness:
  "DisableCVE45105 narrow_switch_reporter
   \<and> count narrow_switch_reporter = 0
   \<and> count (foldl Reporter_Collect narrow_switch_reporter example_items) = 2"
proof -
  have h: "DisableCVE45105 narrow_switch_reporter"
    by (simp add: narrow_switch_reporter_def)
  have z: "count narrow_switch_reporter = 0"
    by (simp add: narrow_switch_reporter_def example_reporter_def)
  have n: "length (filter (\<lambda>(p, finding, v). finding \<noteq> {} \<and> \<not> only_narrow_cve v) example_items) = 2"
    by (simp add: example_items_def only_narrow_cve_def in_narrow_band_def
          version_le_def version_less_def)
  have "count (foldl Reporter_Collect narrow_switch_reporter example_items) = 2"
    using Reporter_Collect_suppression [OF h, of example_items, THEN conjunct1]
    by (simp only: z n) simp
  with h z show ?thesis by (intro conjI)
qed

section \<open>Properties of the docker image scanner\<close>

subsection \<open>The error writer and the temporary directory\<close>

lemma add_path_ErrorWriter [simp]: "ErrorWriter (add_path p w) = ErrorWriter w"
  by (simp add: add_path_def)

lemma add_path_member: "p \<in> set (paths (add_path p w))"
  by (simp add: add_path_def)

lemma fold_add_path_ErrorWriter [simp]:
  "ErrorWriter (fold (\<lambda>entry. add_path (f entry)) entries w) = ErrorWriter w"
  by (induction entries arbitrary: w) simp_all

lemma cleanup_ErrorWriter:
  "\<exists>more. ErrorWriter (cleanup env outFile imageTmpDir w) = ErrorWriter w @ more"
  by (simp add: cleanup_def Let_def write_error_def split: option.splits)

lemma cleanup_removes:
  assumes "\<And>w'. RemoveAll env w' imageTmpDir = None"
  shows "imageTmpDir \<notin> set (paths (cleanup env outFile imageTmpDir w))"
  by (simp add: cleanup_def Let_def inside_def assms)

lemma scanImage_export_ErrorWriter:
  assumes "scanImage_export env img outFile imageTmpDir w = (returned, w')"
  shows "\<exists>more. ErrorWriter w' = ErrorWriter w @ more"
  using assms
  by (auto simp: scanImage_export_def Let_def split: option.splits prod.splits)

text \<open>
  Claim C3.  The claim asks that the temporary directory of an invocation of
  \<^verbatim>\<open>scanImage\<close> be removed on every exit path.  On the path where \<^verbatim>\<open>os.MkdirTemp\<close>
  has created the directory and \<^verbatim>\<open>os.Create\<close> fails, \<^verbatim>\<open>scanImage\<close> returns the error
  of \<^verbatim>\<open>os.Create\<close> and the directory is still there: the cleanup is registered only
  after this return.
\<close>

theorem scanImage_Create_failure_keeps_directory:
  assumes "RepoTags im = tag # tags"
    and "ParseReference env tag = Inr ref"
    and "daemon_Image env w ref = Inr img"
    and "MkdirTemp env w (''log4j-sniffer-'' @ ID im) = Inr imageTmpDir"
    and "Create env (add_path imageTmpDir w) (imageTmpDir @ ''/'' @ ''image.tar'') = Some err"
  shows "scanImage env im w = Some ((Stats_zero env, Some err), add_path imageTmpDir w)
         \<and> imageTmpDir \<in> set (paths (add_path imageTmpDir w))"
  using assms by (simp add: scanImage_def Let_def add_path_member)

text \<open>The theorem in the environment where \<^verbatim>\<open>os.Create\<close> runs out of file descriptors.\<close>

theorem scanImage_Create_failure_keeps_directory_witness:
  "RepoTags example_image = ''app:latest'' # []
   \<and> ParseReference env_create_fails ''app:latest'' = Inr ''app:latest''
   \<and> daemon_Image env_create_fails example_world ''app:latest'' = Inr ''app:latest''
   \<and> MkdirTemp env_create_fails example_world (''log4j-sniffer-'' @ ID example_image)
        = Inr ''/tmp/log4j-sniffer-sha256:0a1b-1''
   \<and> Create env_create_fails (add_path ''/tmp/log4j-sniffer-sha256:0a1b-1'' example_world)
        (''/tmp/log4j-sniffer-sha256:0a1b-1'' @ ''/'' @ ''image.tar'')
        = Some (Error ''open /tmp/log4j-sniffer-sha256:0a1b-1/image.tar: too many open files'')
   \<and> map_option fst (scanImage env_create_fails example_image example_world)
        = Some (0, Some (Error ''open /tmp/log4j-sniffer-sha256:0a1b-1/image.tar: too many open files''))
   \<and> map_option (paths \<circ> snd) (scanImage env_create_fails example_image example_world)
        = Some [''/tmp'', ''/tmp/log4j-sniffer-sha256:0a1b-1'']"
proof -
  let ?dir = "''/tmp/log4j-sniffer-sha256:0a1b-1''"
  let ?err = "Error ''open /tmp/log4j-sniffer-sha256:0a1b-1/image.tar: too many open files''"
  have h1: "RepoTags example_image = ''app:latest'' # []"
    by (simp add: example_image_def)
  have h2: "ParseReference env_create_fails ''app:latest'' = Inr ''app:latest''"
    by (simp add: env_create_fails_def example_env_def)
  have h3: "daemon_Image env_create_fails example_world ''app:latest'' = Inr ''app:latest''"
    by (simp add: env_create_fails_def example_env_def)
  have h4: "MkdirTemp env_create_fails example_world (''log4j-sniffer-'' @ ID example_image)
              = Inr ?dir"
    by (simp add: env_create_fails_def example_env_def example_image_def)
  have h5: "Create env_create_fails (add_path ?dir example_world) (?dir @ ''/'' @ ''image.tar'')
              = Some ?err"
    by (simp add: env_create_fails_def example_env_def)
  note leak = scanImage_Create_failure_keeps_directory [OF h1 h2 h3 h4 h5]
  have z: "Stats_zero env_create_fails = 0"
    by (simp add: env_create_fails_def example_env_def)
  have p: "paths (add_path ?dir example_world) = [''/tmp'', ?dir]"
    by (simp add: add_path_def example_world_def)
  have c1: "map_option fst (scanImage env_create_fails example_image example_world)
              = Some (0, Some ?err)"
    using leak by (simp add: z)
  have c2: "map_option (paths \<circ> snd) (scanImage env_create_fails example_image example_world)
              = Some [''/tmp'', ?dir]"
    using leak by (simp add: p)
  from h1 h2 h3 h4 h5 c1 c2 show ?thesis by (intro conjI)
qed

text \<open>
  On every path that follows the \<^verbatim>\<open>defer\<close> statement the directory is removed, provided
  \<^verbatim>\<open>os.RemoveAll\<close> succeeds.
\<close>

lemma scanImage_removes_directory:
  assumes "RepoTags im = tag # tags"
    and "ParseReference env tag = Inr ref"
    and "daemon_Image env w ref = Inr img"
    and "MkdirTemp env w (''log4j-sniffer-'' @ ID im) = Inr imageTmpDir"
    and "Create env (add_path imageTmpDir w) (imageTmpDir @ ''/'' @ ''image.tar'') = None"
    and "\<And>w'. RemoveAll env w' imageTmpDir = None"
  shows "\<exists>returned w'. scanImage env im w = Some (returned, w')
           \<and> imageTmpDir \<notin> set (paths w')"
proof -
  let ?outFile = "imageTmpDir @ ''/'' @ ''image.tar''"
  obtain returned w2 where
    ex: "scanImage_export env img ?outFile imageTmpDir (add_path ?outFile (add_path imageTmpDir w))
           = (returned, w2)"
    by (cases "scanImage_export env img ?outFile imageTmpDir
                 (add_path ?outFile (add_path imageTmpDir w))") auto
  have "scanImage env im w = Some (returned, cleanup env ?outFile imageTmpDir w2)"
    using assms(1-5) ex by (simp add: scanImage_def Let_def)
  moreover have "imageTmpDir \<notin> set (paths (cleanup env ?outFile imageTmpDir w2))"
    by (rule cleanup_removes [OF assms(6)])
  ultimately show ?thesis by blast
qed

lemma scanImage_returns:
  assumes "RepoTags im \<noteq> []"
  shows "\<exists>returned w'. scanImage env im w = Some (returned, w')"
  using assms
  by (cases "RepoTags im")
     (auto simp: scanImage_def Let_def split: sum.splits option.splits prod.splits)

lemma scanImage_ErrorWriter:
  assumes "scanImage env im w = Some (returned, w')"
  shows "\<exists>more. ErrorWriter w' = ErrorWriter w @ more"
proof -
  have deferred: "\<exists>more. ErrorWriter (cleanup env outFile dir w2) = ErrorWriter w @ more"
    if "scanImage_export env img outFile dir (add_path outFile (add_path dir w)) = (r, w2)"
    for img outFile dir r w2
  proof -
    from scanImage_export_ErrorWriter [OF that]
    obtain m1 where "ErrorWriter w2 = ErrorWriter w @ m1" by auto
    moreover obtain m2 where "ErrorWriter (cleanup env outFile dir w2) = ErrorWriter w2 @ m2"
      using cleanup_ErrorWriter by blast
    ultimately show ?thesis by simp
  qed
  from assms show ?thesis
    by (auto simp: scanImage_def Let_def
          split: list.splits sum.splits option.splits prod.splits
          dest: deferred)
qed

subsection \<open>The loop over the images\<close>

lemma final_state_Cons: "final_state w (r # rs) = final_state (run_after r) rs"
  by (simp add: final_state_def)

lemma scan_images_loop_runs:
  "scan_images_loop env images stats w =
     Some (foldl (Append env) stats (map run_stats (filter succeeded (image_runs env images w))),
           final_state w (image_runs env images w))"
proof (induction images arbitrary: stats w)
  case Nil
  show ?case by (simp add: final_state_def)
next
  case (Cons im images)
  show ?case
  proof (cases "RepoTags im = []")
    case True
    then show ?thesis by (simp add: Cons.IH)
  next
    case False
    obtain imageStats err w2 where
      si: "scanImage env im (announce im w) = Some ((imageStats, err), w2)"
      using scanImage_returns [OF False, of env "announce im w"] by auto
    have si': "scanImage env im
        (w\<lparr>reporter := SetImageTags (RepoTags im) (SetImageID (ID im) (reporter w))\<rparr>)
        = Some ((imageStats, err), w2)"
      using si by (simp add: announce_def)
    show ?thesis
      using False
      by (cases err) (simp_all add: si si' Let_def Cons.IH final_state_Cons succeeded_def)
  qed
qed

lemma image_runs_images:
  "map run_image (image_runs env images w) = filter (\<lambda>im. RepoTags im \<noteq> []) images"
proof (induction images arbitrary: w)
  case Nil
  show ?case by simp
next
  case (Cons im images)
  show ?case
  proof (cases "RepoTags im = []")
    case True
    then show ?thesis by (simp add: Cons.IH)
  next
    case False
    obtain imageStats err w2 where
      si: "scanImage env im (announce im w) = Some ((imageStats, err), w2)"
      using scanImage_returns [OF False, of env "announce im w"] by auto
    show ?thesis
      using False by (simp add: si Let_def Cons.IH)
  qed
qed

lemma image_runs_ErrorWriter:
  "\<exists>more. ErrorWriter (final_state w (image_runs env images w)) = ErrorWriter w @ more"
proof (induction images arbitrary: w)
  case Nil
  show ?case by (simp add: final_state_def)
next
  case (Cons im images)
  show ?case
  proof (cases "RepoTags im = []")
    case True
    then show ?thesis using Cons.IH by simp
  next
    case False
    obtain imageStats err w2 where
      si: "scanImage env im (announce im w) = Some ((imageStats, err), w2)"
      using scanImage_returns [OF False, of env "announce im w"] by auto
    obtain m1 where m1: "ErrorWriter w2 = ErrorWriter w @ m1"
      using scanImage_ErrorWriter [OF si] by (auto simp: announce_def)
    define after where "after = (case err of None \<Rightarrow> w2
                                 | Some e \<Rightarrow> write_error (Error_msg e @ newline) w2)"
    have "\<exists>m2. ErrorWriter after = ErrorWriter w @ m2"
      using m1 by (cases err) (simp_all add: after_def write_error_def)
    moreover obtain m3 where
      "ErrorWriter (final_state after (image_runs env images after)) = ErrorWriter after @ m3"
      using Cons.IH by blast
    ultimately show ?thesis
      using False by (auto simp: si Let_def final_state_Cons after_def)
  qed
qed

lemma image_runs_error_lines:
  assumes "r \<in> set (image_runs env images w)" and "run_err r = Some e"
  shows "Error_msg e @ newline \<in> set (ErrorWriter (final_state w (image_runs env images w)))"
  using assms
proof (induction images arbitrary: w)
  case Nil
  then show ?case by simp
next
  case (Cons im images)
  show ?case
  proof (cases "RepoTags im = []")
    case True
    then show ?thesis using Cons by simp
  next
    case False
    obtain imageStats err w2 where
      si: "scanImage env im (announce im w) = Some ((imageStats, err), w2)"
      using scanImage_returns [OF False, of env "announce im w"] by auto
    define after where "after = (case err of None \<Rightarrow> w2
                                 | Some e \<Rightarrow> write_error (Error_msg e @ newline) w2)"
    define r0 :: "'a ImageRun" where
      "r0 = \<lparr>run_image = im, run_before = announce im w, run_stats = imageStats,
              run_err = err, run_after = after\<rparr>"
    have runs: "image_runs env (im # images) w = r0 # image_runs env images after"
      using False by (simp add: si Let_def after_def r0_def)
    have fin: "final_state w (image_runs env (im # images) w)
               = final_state after (image_runs env images after)"
      unfolding runs final_state_Cons by (simp add: r0_def)
    from Cons.prems(1) runs consider "r = r0" | "r \<in> set (image_runs env images after)"
      by auto
    then show ?thesis
    proof cases
      case 1
      with Cons.prems(2) have "err = Some e" by (simp add: r0_def)
      then have "Error_msg e @ newline \<in> set (ErrorWriter after)"
        by (simp add: after_def write_error_def)
      moreover obtain m where
        "ErrorWriter (final_state after (image_runs env images after)) = ErrorWriter after @ m"
        using image_runs_ErrorWriter by blast
      ultimately show ?thesis unfolding fin by simp
    next
      case 2
      from Cons.IH [OF 2 Cons.prems(2)] show ?thesis unfolding fin .
    qed
  qed
qed

lemma add_path_reporter [simp]: "reporter (add_path p w) = reporter w"
  by (simp add: add_path_def)

lemma fold_add_path_reporter [simp]:
  "reporter (fold (\<lambda>entry. add_path (f entry)) entries w) = reporter w"
  by (induction entries arbitrary: w) simp_all

lemma cleanup_reporter [simp]: "reporter (cleanup env outFile imageTmpDir w) = reporter w"
  by (simp add: cleanup_def Let_def write_error_def split: option.splits)

lemma write_error_reporter [simp]: "reporter (write_error text w) = reporter w"
  by (simp add: write_error_def)

lemma announce_count [simp]: "Count (reporter (announce im w)) = Count (reporter w)"
  by (simp add: announce_def SetImageID_def SetImageTags_def Count_def)

lemma scanImage_export_failed_count:
  assumes quiet: "\<And>w0 root. crawl_err (Crawl env w0 root) \<noteq> None \<Longrightarrow>
            count (foldl Reporter_Collect (reporter w0) (collected (Crawl env w0 root)))
              = count (reporter w0)"
    and ex: "scanImage_export env img outFile imageTmpDir w = ((imageStats, Some e), w')"
  shows "count (reporter w') = count (reporter w)"
proof (cases "Export env w img outFile")
  case (Some err)
  with ex show ?thesis by (auto simp: scanImage_export_def)
next
  case None
  obtain entries unarchived where un: "Unarchive env w outFile imageTmpDir = (entries, unarchived)"
    by (cases "Unarchive env w outFile imageTmpDir") auto
  define w1 where "w1 = fold (\<lambda>entry. add_path (imageTmpDir @ ''/'' @ entry)) entries w"
  have r1: "reporter w1 = reporter w" by (simp add: w1_def)
  show ?thesis
  proof (cases unarchived)
    case (Some err)
    with ex None un show ?thesis by (auto simp: scanImage_export_def)
  next
    case unNone: None
    show ?thesis
    proof (cases "Remove env w1 outFile")
      case (Some err)
      with ex None un unNone r1 show ?thesis by (auto simp: scanImage_export_def w1_def)
    next
      case rmNone: None
      define w2 where "w2 = w1\<lparr>paths := removeAll outFile (paths w1)\<rparr>"
      have r2: "reporter w2 = reporter w" by (simp add: w2_def r1)
      show ?thesis
      proof (cases "Chdir env w2 imageTmpDir")
        case (Some err)
        with ex None un unNone rmNone r2 show ?thesis
          by (auto simp: scanImage_export_def w1_def w2_def Let_def)
      next
        case cdNone: None
        define w3 where "w3 = w2\<lparr>cwd := imageTmpDir\<rparr>"
        have r3: "reporter w3 = reporter w" by (simp add: w3_def r2)
        from ex None un unNone rmNone cdNone
        have err: "crawl_err (Crawl env w3 ''.'') = Some e"
          and w': "reporter w' = foldl Reporter_Collect (reporter w3) (collected (Crawl env w3 ''.''))"
          by (auto simp: scanImage_export_def w1_def w2_def w3_def Let_def)
        from err have "crawl_err (Crawl env w3 ''.'') \<noteq> None" by simp
        from quiet [OF this] show ?thesis by (simp add: w' r3)
      qed
    qed
  qed
qed

lemma scanImage_failed_count:
  assumes quiet: "\<And>w0 root. crawl_err (Crawl env w0 root) \<noteq> None \<Longrightarrow>
            count (foldl Reporter_Collect (reporter w0) (collected (Crawl env w0 root)))
              = count (reporter w0)"
    and si: "scanImage env im w = Some ((imageStats, Some e), w')"
  shows "Count (reporter w') = Count (reporter w)"
proof -
  have deferred: "count (reporter (cleanup env outFile dir w2)) = count (reporter w)"
    if "scanImage_export env img outFile dir (add_path outFile (add_path dir w))
          = ((imageStats, Some e), w2)"
    for img outFile dir w2
    using scanImage_export_failed_count [OF quiet that] by simp
  from si show ?thesis
    by (auto simp: scanImage_def Let_def Count_def
          split: list.splits sum.splits option.splits prod.splits
          dest: deferred)
qed

lemma image_runs_count:
  "Count (reporter (final_state w (image_runs env images w)))
     = Count (reporter w) + sum_list (map reported (image_runs env images w))"
proof (induction images arbitrary: w)
  case Nil
  show ?case by (simp add: final_state_def)
next
  case (Cons im images)
  show ?case
  proof (cases "RepoTags im = []")
    case True
    then show ?thesis by (simp add: Cons.IH)
  next
    case False
    obtain imageStats err w2 where
      si: "scanImage env im (announce im w) = Some ((imageStats, err), w2)"
      using scanImage_returns [OF False, of env "announce im w"] by auto
    define after where "after = (case err of None \<Rightarrow> w2
                                 | Some e \<Rightarrow> write_error (Error_msg e @ newline) w2)"
    define r0 :: "'a ImageRun" where
      "r0 = \<lparr>run_image = im, run_before = announce im w, run_stats = imageStats,
              run_err = err, run_after = after\<rparr>"
    have runs: "image_runs env (im # images) w = r0 # image_runs env images after"
      using False by (simp add: si Let_def after_def r0_def)
    have "reported r0 = Count (reporter after) - Count (reporter w)"
      by (simp add: reported_def r0_def)
    then show ?thesis
      unfolding runs final_state_Cons
      by (simp add: Cons.IH r0_def)
  qed
qed

lemma image_runs_failed_reported:
  assumes quiet: "\<And>w0 root. crawl_err (Crawl env w0 root) \<noteq> None \<Longrightarrow>
            count (foldl Reporter_Collect (reporter w0) (collected (Crawl env w0 root)))
              = count (reporter w0)"
  shows "sum_list (map reported (image_runs env images w))
           = sum_list (map reported (filter succeeded (image_runs env images w)))"
proof (induction images arbitrary: w)
  case Nil
  show ?case by simp
next
  case (Cons im images)
  show ?case
  proof (cases "RepoTags im = []")
    case True
    then show ?thesis by (simp add: Cons.IH)
  next
    case False
    obtain imageStats err w2 where
      si: "scanImage env im (announce im w) = Some ((imageStats, err), w2)"
      using scanImage_returns [OF False, of env "announce im w"] by auto
    define after where "after = (case err of None \<Rightarrow> w2
                                 | Some e \<Rightarrow> write_error (Error_msg e @ newline) w2)"
    define r0 :: "'a ImageRun" where
      "r0 = \<lparr>run_image = im, run_before = announce im w, run_stats = imageStats,
              run_err = err, run_after = after\<rparr>"
    have runs: "image_runs env (im # images) w = r0 # image_runs env images after"
      using False by (simp add: si Let_def after_def r0_def)
    have "reported r0 = 0" if "\<not> succeeded r0"
    proof -
      from that obtain e where e: "err = Some e" by (auto simp: succeeded_def r0_def)
      with si have "Count (reporter w2) = Count (reporter (announce im w))"
        using scanImage_failed_count [OF quiet] by blast
      then show ?thesis
        by (simp add: reported_def r0_def after_def e)
    qed
    then show ?thesis
      unfolding runs by (simp add: Cons.IH)
  qed
qed

lemma ScanImages_runs:
  assumes "ImageList env w = Inr images"
  shows "ScanImages env w =
     Some (let runs = image_runs env images w;
               w' = final_state w runs;
               n = Count (reporter w');
               summary = WriteSummary env w' (combined_stats env runs) n
           in if OutputSummary env
              then ((if snd summary = None then n else 0, snd summary),
                    w'\<lparr>reporter := (reporter w')
                         \<lparr>OutputWriter := OutputWriter (reporter w') @ [Text (fst summary)]\<rparr>\<rparr>)
              else ((n, None), w'))"
proof -
  let ?runs = "image_runs env images w"
  let ?w' = "final_state w ?runs"
  obtain summary_text failed where
    ws: "WriteSummary env ?w' (combined_stats env ?runs) (Count (reporter ?w')) = (summary_text, failed)"
    by (cases "WriteSummary env ?w' (combined_stats env ?runs) (Count (reporter ?w'))") auto
  have loop: "scan_images_loop env images (Stats_zero env) w
                = Some (combined_stats env ?runs, ?w')"
    by (simp only: scan_images_loop_runs combined_stats_def)
  show ?thesis
    by (cases failed) (simp_all add: ScanImages_def assms loop ws Let_def)
qed

lemma scanImage_OutputSummary [simp]:
  "scanImage (env\<lparr>OutputSummary := b\<rparr>) im w = scanImage env im w"
  by (simp add: scanImage_def scanImage_export_def cleanup_def
        cong: list.case_cong sum.case_cong option.case_cong prod.case_cong)

lemma image_runs_OutputSummary [simp]:
  "image_runs (env\<lparr>OutputSummary := b\<rparr>) images w = image_runs env images w"
  by (induction images arbitrary: w)
     (simp_all cong: option.case_cong prod.case_cong add: Let_def)

lemma example_runs:
  "\<exists>after.
     image_runs env_image_gone [untagged_image, gone_image, example_image] example_world
       = [\<lparr>run_image = gone_image,
            run_before = announce gone_image example_world,
            run_stats = 0,
            run_err = Some (Error ''No such image: gone:latest''),
            run_after = write_error (''No such image: gone:latest'' @ newline)
                          (announce gone_image example_world)\<rparr>,
          \<lparr>run_image = example_image,
            run_before = announce example_image
                           (write_error (''No such image: gone:latest'' @ newline)
                              (announce gone_image example_world)),
            run_stats = 1,
            run_err = None,
            run_after = after\<rparr>]
     \<and> Count (reporter after) = 1
     \<and> OutputWriter (reporter after)
         = [Record (finding_record ''usr/lib/log4j-core-2.14.1.jar'' {JarName}
                      (Some \<lparr>major = 2, minor = 14, patch = 1\<rparr>))]
     \<and> ErrorWriter after = [''No such image: gone:latest'' @ newline]"
proof -
  let ?w1 = "announce gone_image example_world"
  let ?w3 = "write_error (''No such image: gone:latest'' @ newline) ?w1"
  let ?w4 = "announce example_image ?w3"
  have s1: "scanImage env_image_gone gone_image ?w1
              = Some ((0, Some (Error ''No such image: gone:latest'')), ?w1)"
    by (simp add: scanImage_def env_image_gone_def example_env_def gone_image_def)
  have tagged: "RepoTags example_image \<noteq> []" "RepoTags gone_image \<noteq> []"
    "RepoTags untagged_image = []"
    by (simp_all add: example_image_def gone_image_def untagged_image_def)
  obtain imageStats err after where
    s2: "scanImage env_image_gone example_image ?w4 = Some ((imageStats, err), after)"
    using scanImage_returns [OF tagged(1), of env_image_gone ?w4] by auto
  have "map_option fst (scanImage env_image_gone example_image ?w4) = Some (1, None)"
    by code_simp
  with s2 have r: "imageStats = 1" "err = None" by simp_all
  have "map_option (Count \<circ> reporter \<circ> snd) (scanImage env_image_gone example_image ?w4)
          = Some 1"
    by code_simp
  with s2 have n: "Count (reporter after) = 1" by simp
  have "map_option (OutputWriter \<circ> reporter \<circ> snd)
          (scanImage env_image_gone example_image ?w4)
        = Some [Record (finding_record ''usr/lib/log4j-core-2.14.1.jar'' {JarName}
                      (Some \<lparr>major = 2, minor = 14, patch = 1\<rparr>))]"
    by code_simp
  with s2 have out: "OutputWriter (reporter after)
         = [Record (finding_record ''usr/lib/log4j-core-2.14.1.jar'' {JarName}
                      (Some \<lparr>major = 2, minor = 14, patch = 1\<rparr>))]"
    by simp
  have "map_option (ErrorWriter \<circ> snd) (scanImage env_image_gone example_image ?w4)
          = Some [''No such image: gone:latest'' @ newline]"
    by code_simp
  with s2 have errw: "ErrorWriter after = [''No such image: gone:latest'' @ newline]"
    by simp
  have "image_runs env_image_gone [untagged_image, gone_image, example_image] example_world
       = [\<lparr>run_image = gone_image, run_before = ?w1, run_stats = 0,
            run_err = Some (Error ''No such image: gone:latest''), run_after = ?w3\<rparr>,
          \<lparr>run_image = example_image, run_before = ?w4, run_stats = 1,
            run_err = None, run_after = after\<rparr>]"
    by (simp only: image_runs.simps tagged if_True if_False s1 s2 r option.case prod.case
          Let_def Error_msg.simps simp_thms)
  with n out errw show ?thesis by blast
qed

subsection \<open>Images that fail to scan\<close>

text \<open>
  Claim C2, as amended.  Every image of the list that has a tag is scanned, in the order
  of the list, whatever happened to the images before it.  When \<^verbatim>\<open>scanImage\<close> returns
  an error for an image, the message of the error and a newline are written to the error
  writer and are still there after the last image, and the image adds nothing to the
  combined Stats.  After the loop \<^verbatim>\<open>ScanImages\<close> writes the summary, with the Stats
  combined from the images that succeeded, when \<^verbatim>\<open>OutputSummary\<close> is set, and only then.
  It returns a nil error and the cumulative count of the reporter, or 0 and the error of
  the summary writer when the summary fails to be written: the error of an image is never
  returned.  The count returned is the count before the run plus what every scanned
  image added to it; it is the cumulative count of the images that succeeded whenever a
  crawl that returns an error has left the count of the reporter as it was, which is so
  for every failure before the crawl.
\<close>

theorem ScanImages_skips_failed_image:
  assumes listed: "ImageList env w = Inr images"
  shows "let runs = image_runs env images w;
             w' = final_state w runs;
             n = Count (reporter w');
             summary = WriteSummary env w' (combined_stats env runs) n
         in map run_image runs = filter (\<lambda>im. RepoTags im \<noteq> []) images
          \<and> (\<forall>r \<in> set runs. \<forall>e. run_err r = Some e
                 \<longrightarrow> Error_msg e @ newline \<in> set (ErrorWriter w'))
          \<and> ScanImages env w =
               Some (if OutputSummary env
                     then ((if snd summary = None then n else 0, snd summary),
                           w'\<lparr>reporter := (reporter w')
                                \<lparr>OutputWriter := OutputWriter (reporter w')
                                                   @ [Text (fst summary)]\<rparr>\<rparr>)
                     else ((n, None), w'))
          \<and> n = Count (reporter w) + sum_list (map reported runs)
          \<and> ((\<forall>w0 root. crawl_err (Crawl env w0 root) \<noteq> None \<longrightarrow>
                  count (foldl Reporter_Collect (reporter w0) (collected (Crawl env w0 root)))
                    = count (reporter w0))
               \<longrightarrow> n = Count (reporter w) + sum_list (map reported (filter succeeded runs)))"
proof -
  let ?runs = "image_runs env images w"
  have a: "map run_image ?runs = filter (\<lambda>im. RepoTags im \<noteq> []) images"
    by (rule image_runs_images)
  have b: "\<forall>r \<in> set ?runs. \<forall>e. run_err r = Some e
             \<longrightarrow> Error_msg e @ newline \<in> set (ErrorWriter (final_state w ?runs))"
    using image_runs_error_lines by blast
  note c = ScanImages_runs [OF listed, unfolded Let_def]
  have d: "Count (reporter (final_state w ?runs))
             = Count (reporter w) + sum_list (map reported ?runs)"
    by (rule image_runs_count)
  have e: "Count (reporter (final_state w ?runs))
             = Count (reporter w) + sum_list (map reported (filter succeeded ?runs))"
    if "\<forall>w0 root. crawl_err (Crawl env w0 root) \<noteq> None \<longrightarrow>
          count (foldl Reporter_Collect (reporter w0) (collected (Crawl env w0 root)))
            = count (reporter w0)"
    using d image_runs_failed_reported [of env images w] that by simp
  show ?thesis
    unfolding Let_def using a b c d e by blast
qed

text \<open>
  The theorem at the list of an image without tags, an image that has left the daemon
  and an image that scans, with the summary enabled: two images are scanned, the line of
  the failed one is in the error writer, the Stats and the count of the third image are
  reported, the summary is written after the record of the finding, and the count
  returned is what the image that succeeded added.
\<close>

theorem ScanImages_skips_failed_image_witness:
  "ImageList env_image_gone example_world = Inr [untagged_image, gone_image, example_image]
   \<and> (\<forall>w0 root. crawl_err (Crawl env_image_gone w0 root) = None)
   \<and> map run_image
         (image_runs env_image_gone [untagged_image, gone_image, example_image] example_world)
        = [gone_image, example_image]
   \<and> map run_err
         (image_runs env_image_gone [untagged_image, gone_image, example_image] example_world)
        = [Some (Error ''No such image: gone:latest''), None]
   \<and> ''No such image: gone:latest'' @ newline
        \<in> set (ErrorWriter (final_state example_world
                  (image_runs env_image_gone [untagged_image, gone_image, example_image]
                     example_world)))
   \<and> combined_stats env_image_gone
         (image_runs env_image_gone [untagged_image, gone_image, example_image] example_world)
        = 1
   \<and> map_option fst (ScanImages env_image_gone example_world) = Some (1, None)
   \<and> map_option (OutputWriter \<circ> reporter \<circ> snd) (ScanImages env_image_gone example_world)
        = Some [Record (finding_record ''usr/lib/log4j-core-2.14.1.jar'' {JarName}
                          (Some \<lparr>major = 2, minor = 14, patch = 1\<rparr>)),
                Text ''summary'']
   \<and> Count (reporter example_world) = 0
   \<and> sum_list (map reported (filter succeeded
         (image_runs env_image_gone [untagged_image, gone_image, example_image] example_world)))
        = 1"
proof -
  let ?images = "[untagged_image, gone_image, example_image]"
  let ?runs = "image_runs env_image_gone ?images example_world"
  obtain after where
    runs: "?runs
       = [\<lparr>run_image = gone_image,
            run_before = announce gone_image example_world,
            run_stats = 0,
            run_err = Some (Error ''No such image: gone:latest''),
            run_after = write_error (''No such image: gone:latest'' @ newline)
                          (announce gone_image example_world)\<rparr>,
          \<lparr>run_image = example_image,
            run_before = announce example_image
                           (write_error (''No such image: gone:latest'' @ newline)
                              (announce gone_image example_world)),
            run_stats = 1,
            run_err = None,
            run_after = after\<rparr>]"
    and n: "Count (reporter after) = 1"
    and out: "OutputWriter (reporter after)
         = [Record (finding_record ''usr/lib/log4j-core-2.14.1.jar'' {JarName}
                      (Some \<lparr>major = 2, minor = 14, patch = 1\<rparr>))]"
    using example_runs by blast
  have h1: "ImageList env_image_gone example_world = Inr ?images"
    by (simp add: env_image_gone_def)
  have h2: "\<forall>w0 root. crawl_err (Crawl env_image_gone w0 root) = None"
    by (simp add: env_image_gone_def example_env_def example_run_def)
  note all = ScanImages_skips_failed_image [OF h1, unfolded Let_def]
  have fin: "final_state example_world ?runs = after"
    unfolding runs by (simp add: final_state_def)
  have c1: "map run_image ?runs = [gone_image, example_image]"
    unfolding runs by simp
  have c2: "map run_err ?runs = [Some (Error ''No such image: gone:latest''), None]"
    unfolding runs by simp
  have "\<forall>r \<in> set ?runs. \<forall>e. run_err r = Some e
          \<longrightarrow> Error_msg e @ newline \<in> set (ErrorWriter (final_state example_world ?runs))"
    using all by blast
  then have c3: "''No such image: gone:latest'' @ newline
                   \<in> set (ErrorWriter (final_state example_world ?runs))"
    unfolding runs by simp
  have c4: "combined_stats env_image_gone ?runs = 1"
    unfolding runs
    by (simp add: combined_stats_def succeeded_def env_image_gone_def example_env_def)
  have sw: "OutputSummary env_image_gone"
    "\<And>w stats k. WriteSummary env_image_gone w stats k = (''summary'', None)"
    by (simp_all add: env_image_gone_def example_env_def)
  have "ScanImages env_image_gone example_world
          = Some ((Count (reporter after), None),
                  after\<lparr>reporter := (reporter after)
                     \<lparr>OutputWriter := OutputWriter (reporter after) @ [Text ''summary'']\<rparr>\<rparr>)"
    using all unfolding fin by (simp add: sw)
  then have c5: "map_option fst (ScanImages env_image_gone example_world) = Some (1, None)"
    and c6: "map_option (OutputWriter \<circ> reporter \<circ> snd) (ScanImages env_image_gone example_world)
        = Some [Record (finding_record ''usr/lib/log4j-core-2.14.1.jar'' {JarName}
                          (Some \<lparr>major = 2, minor = 14, patch = 1\<rparr>)),
                Text ''summary'']"
    by (simp_all add: n out)
  have c7: "Count (reporter example_world) = 0"
    by (simp add: example_world_def example_reporter_def Count_def)
  have quiet: "\<forall>w0 root. crawl_err (Crawl env_image_gone w0 root) \<noteq> None \<longrightarrow>
      count (foldl Reporter_Collect (reporter w0) (collected (Crawl env_image_gone w0 root)))
        = count (reporter w0)"
    using h2 by simp
  have "Count (reporter (final_state example_world ?runs))
          = Count (reporter example_world) + sum_list (map reported (filter succeeded ?runs))"
    by (rule all [THEN conjunct2, THEN conjunct2, THEN conjunct2, THEN conjunct2, THEN mp,
                  OF quiet])
  then have c8: "sum_list (map reported (filter succeeded ?runs)) = 1"
    unfolding fin n c7 by simp
  from h1 h2 c1 c2 c3 c4 c5 c6 c7 c8 show ?thesis by (intro conjI)
qed

text \<open>
  Claim C2 as it is stated has the run still produce a combined summary and return the
  cumulative count of the roots that succeeded.  With \<^verbatim>\<open>OutputSummary\<close> off, the same
  list of images gives the count 1 and a nil error, and the output writer holds the
  record of the finding and no summary: the test \<^verbatim>\<open>if d.config.OutputSummary\<close> guards the
  call of \<^verbatim>\<open>scan.WriteSummary\<close>.  And when the crawl of the only image reports one
  vulnerable path to the reporter and then returns the error of a cancelled context, no
  image has succeeded, and \<^verbatim>\<open>ScanImages\<close> returns the count 1 with a nil error.
\<close>

theorem ScanImages_summary_and_count_counterexample:
  "ImageList env_summary_off example_world = Inr [untagged_image, gone_image, example_image]
   \<and> map run_err
         (image_runs env_summary_off [untagged_image, gone_image, example_image] example_world)
        = [Some (Error ''No such image: gone:latest''), None]
   \<and> map_option fst (ScanImages env_summary_off example_world) = Some (1, None)
   \<and> map_option (OutputWriter \<circ> reporter \<circ> snd) (ScanImages env_summary_off example_world)
        = Some [Record (finding_record ''usr/lib/log4j-core-2.14.1.jar'' {JarName}
                          (Some \<lparr>major = 2, minor = 14, patch = 1\<rparr>))]
   \<and> ImageList env_crawl_cancelled example_world = Inr [example_image]
   \<and> map run_err (image_runs env_crawl_cancelled [example_image] example_world)
        = [Some (Error ''context canceled'')]
   \<and> Count (reporter example_world) = 0
   \<and> map_option fst (ScanImages env_crawl_cancelled example_world) = Some (1, None)"
proof -
  let ?images = "[untagged_image, gone_image, example_image]"
  let ?runs = "image_runs env_image_gone ?images example_world"
  obtain after where
    runs: "?runs
       = [\<lparr>run_image = gone_image,
            run_before = announce gone_image example_world,
            run_stats = 0,
            run_err = Some (Error ''No such image: gone:latest''),
            run_after = write_error (''No such image: gone:latest'' @ newline)
                          (announce gone_image example_world)\<rparr>,
          \<lparr>run_image = example_image,
            run_before = announce example_image
                           (write_error (''No such image: gone:latest'' @ newline)
                              (announce gone_image example_world)),
            run_stats = 1,
            run_err = None,
            run_after = after\<rparr>]"
    and n: "Count (reporter after) = 1"
    and out: "OutputWriter (reporter after)
         = [Record (finding_record ''usr/lib/log4j-core-2.14.1.jar'' {JarName}
                      (Some \<lparr>major = 2, minor = 14, patch = 1\<rparr>))]"
    using example_runs by blast
  have same: "image_runs env_summary_off ?images example_world = ?runs"
    unfolding env_summary_off_def by (rule image_runs_OutputSummary)
  have a1: "ImageList env_summary_off example_world = Inr ?images"
    by (simp add: env_summary_off_def env_image_gone_def)
  have off: "\<not> OutputSummary env_summary_off"
    by (simp add: env_summary_off_def)
  have fin: "final_state example_world ?runs = after"
    unfolding runs by (simp add: final_state_def)
  have a2: "map run_err (image_runs env_summary_off ?images example_world)
              = [Some (Error ''No such image: gone:latest''), None]"
    unfolding same runs by simp
  have "ScanImages env_summary_off example_world = Some ((Count (reporter after), None), after)"
    using ScanImages_runs [OF a1] unfolding Let_def same fin by (simp add: off)
  then have a3: "map_option fst (ScanImages env_summary_off example_world) = Some (1, None)"
    and a4: "map_option (OutputWriter \<circ> reporter \<circ> snd)
               (ScanImages env_summary_off example_world)
        = Some [Record (finding_record ''usr/lib/log4j-core-2.14.1.jar'' {JarName}
                          (Some \<lparr>major = 2, minor = 14, patch = 1\<rparr>))]"
    by (simp_all add: n out)
  have b1: "ImageList env_crawl_cancelled example_world = Inr [example_image]"
    by (simp add: env_crawl_cancelled_def example_env_def)
  have b2: "map run_err (image_runs env_crawl_cancelled [example_image] example_world)
        = [Some (Error ''context canceled'')]"
    by code_simp
  have b3: "Count (reporter example_world) = 0"
    by (simp add: example_world_def example_reporter_def Count_def)
  have b4: "map_option fst (ScanImages env_crawl_cancelled example_world) = Some (1, None)"
    by code_simp
  from a1 a2 a3 a4 b1 b2 b3 b4 show ?thesis by (intro conjI)
qed

end
